theory Spec2Isabelle
  imports Complex_Main "HOL-Library.Multiset" "HOL-Library.Log_Nat"
begin

section \<open>Python values used by the scraper\<close>

text \<open>
  The scraper (\<^verbatim>\<open>s-index/scholar_scraper.py\<close>) works on text taken from a page, on
  Python integers and on dictionaries with a fixed set of keys. Text is modelled as
  \<^typ>\<open>string\<close>, each character being one code point below 256, so the model covers
  Python strings within Latin-1; Python's integers are \<^typ>\<open>int\<close>. The exceptions
  that the modelled code can raise are values of \<open>py_error\<close>; a function that can raise
  returns \<open>py_error + 'a\<close>.
\<close>

datatype py_error = ValueError | KeyError | TypeError | ZeroDivisionError | OverflowError

text \<open>
  What \<^verbatim>\<open>requests.get\<close> and \<^verbatim>\<open>raise_for_status\<close> can raise, with the text of
  \<^verbatim>\<open>str(e)\<close>: a \<^verbatim>\<open>RequestException\<close>, caught by the first handler, or any other
  exception, caught by the second.
\<close>

datatype fetch_failure = RequestException string | OtherException string

text \<open>
  Every function of the scraper returns either its data or the dictionary
  \<^verbatim>\<open>{"error": message}\<close>; the callers tell them apart with
  \<^verbatim>\<open>isinstance(x, dict) and "error" in x\<close>.
\<close>

datatype 'a scrape_result = ErrorResult string | Data 'a

subsection \<open>Characters and decimal numerals\<close>

definition newline :: char where
  "newline = CHR 0x0A"

text \<open>The decimal digits \<^verbatim>\<open>0\<close> to \<^verbatim>\<open>9\<close> and their values.\<close>

definition is_digit :: "char \<Rightarrow> bool" where
  "is_digit c = (c \<in> set ''0123456789'')"

definition digit_value :: "char \<Rightarrow> int" where
  "digit_value c = int (of_char c) - 48"

text \<open>
  \<^verbatim>\<open>str.isdigit\<close>: the string is not empty and each character is a digit in the sense
  of Unicode. Below 256 these are the decimal digits and the superscripts two, three
  and one (U+00B2, U+00B3, U+00B9), which are digits but not decimal digits.
\<close>

definition is_unicode_digit :: "char \<Rightarrow> bool" where
  "is_unicode_digit c = (is_digit c \<or> c \<in> set [CHR 0xB2, CHR 0xB3, CHR 0xB9])"

definition isdigit :: "string \<Rightarrow> bool" where
  "isdigit s = (s \<noteq> [] \<and> list_all is_unicode_digit s)"

text \<open>
  \<^verbatim>\<open>int(s)\<close> for a string, base ten, as CPython 3.11 computes it. A string that is not
  pure ASCII is first rewritten: a character below 127 stays, the Unicode white space
  above (below 256: U+0085 and U+00A0) becomes a blank, a decimal digit above would
  become its ASCII digit (there is none below 256), and at the first other character
  the text is cut and ends in a question mark. A pure ASCII string is taken as it is.
\<close>

definition is_ascii :: "char \<Rightarrow> bool" where
  "is_ascii c = ((of_char c :: nat) < 128)"

fun transform_space_to_ascii :: "string \<Rightarrow> string" where
  "transform_space_to_ascii [] = []"
| "transform_space_to_ascii (c # cs) =
     (if (of_char c :: nat) < 127 then c # transform_space_to_ascii cs
      else if c = CHR 0x85 \<or> c = CHR 0xA0 then CHR '' '' # transform_space_to_ascii cs
      else ''?'')"

definition int_text :: "string \<Rightarrow> string" where
  "int_text s = (if list_all is_ascii s then s else transform_space_to_ascii s)"

text \<open>
  Then the white space of C (tab, line feed, vertical tab, form feed, carriage return,
  blank) is dropped at both ends.
\<close>

definition is_space :: "char \<Rightarrow> bool" where
  "is_space c = (c \<in> set [CHR 0x09, CHR 0x0A, CHR 0x0B, CHR 0x0C, CHR 0x0D, CHR 0x20])"

definition strip :: "string \<Rightarrow> string" where
  "strip s = rev (dropWhile is_space (rev (dropWhile is_space s)))"

text \<open>
  What is left must be one optional sign followed by decimal digits, where a single
  underscore may stand between two digits. \<open>int_digits acc s\<close> reads what follows a
  digit, \<open>acc\<close> being the value read so far.
\<close>

fun int_digits :: "int \<Rightarrow> string \<Rightarrow> int option" where
  "int_digits acc [] = Some acc"
| "int_digits acc (c # cs) =
     (if is_digit c then int_digits (10 * acc + digit_value c) cs
      else if c = CHR ''_'' then
        (case cs of
           [] \<Rightarrow> None
         | d # ds \<Rightarrow> if is_digit d then int_digits (10 * acc + digit_value d) ds else None)
      else None)"

text \<open>
  A literal with more digits than the interpreter's limit, 4300 unless it is configured
  otherwise, is refused. The digits are counted without the sign, the white space and
  the underscores, leading zeros included.
\<close>

definition int_max_str_digits :: nat where
  "int_max_str_digits = 4300"

definition int_unsigned :: "string \<Rightarrow> int option" where
  "int_unsigned s =
     (case s of
        [] \<Rightarrow> None
      | c # cs \<Rightarrow>
          if is_digit c then
            (case int_digits (digit_value c) cs of
               None \<Rightarrow> None
             | Some n \<Rightarrow> if length (filter is_digit s) > int_max_str_digits then None else Some n)
          else None)"

text \<open>Anything that is not such a literal raises \<^verbatim>\<open>ValueError\<close>.\<close>

definition py_int :: "string \<Rightarrow> py_error + int" where
  "py_int s =
     (case strip (int_text s) of
        [] \<Rightarrow> Inl ValueError
      | c # cs \<Rightarrow>
          if c = CHR ''-'' then
            (case int_unsigned cs of None \<Rightarrow> Inl ValueError | Some n \<Rightarrow> Inr (- n))
          else if c = CHR ''+'' then
            (case int_unsigned cs of None \<Rightarrow> Inl ValueError | Some n \<Rightarrow> Inr n)
          else
            (case int_unsigned (c # cs) of None \<Rightarrow> Inl ValueError | Some n \<Rightarrow> Inr n))"

text \<open>
  \<^verbatim>\<open>str(n)\<close> of an integer, as the f-strings of the renderers insert it. The same
  limit holds in this direction: an integer of more than 4300 digits is refused with
  \<^verbatim>\<open>ValueError\<close>. \<open>str_nat\<close> gives the digits; it is used as it is for the lengths and
  indices of lists, which stay far below the limit.
\<close>

definition digit_char :: "nat \<Rightarrow> char" where
  "digit_char d = ''0123456789'' ! d"

fun str_nat :: "nat \<Rightarrow> string" where
  "str_nat n =
     (if n < 10 then [digit_char n]
      else str_nat (n div 10) @ [digit_char (n mod 10)])"

declare str_nat.simps [simp del]

definition str_int :: "int \<Rightarrow> py_error + string" where
  "str_int i =
     (let digits = str_nat (nat \<bar>i\<bar>) in
      if length digits > int_max_str_digits then Inl ValueError
      else Inr (if i < 0 then CHR ''-'' # digits else digits))"

text \<open>
  An f-string: its pieces are formatted from left to right and joined; the first piece
  that raises ends it.
\<close>

fun fstring :: "(py_error + string) list \<Rightarrow> py_error + string" where
  "fstring [] = Inr []"
| "fstring (Inl e # rest) = Inl e"
| "fstring (Inr s # rest) = (case fstring rest of Inl e \<Rightarrow> Inl e | Inr t \<Rightarrow> Inr (s @ t))"

text \<open>
  A sequence of \<^verbatim>\<open>print\<close> calls, each given the string it is to print or the exception
  that building the string raises: the strings printed, one per call, up to the first
  exception, and that exception if there is one. The encoding of the output stream is
  not modelled.
\<close>

type_synonym printed = "string list \<times> py_error option"

fun prints :: "(py_error + string) list \<Rightarrow> printed" where
  "prints [] = ([], None)"
| "prints (Inl e # rest) = ([], Some e)"
| "prints (Inr s # rest) = (case prints rest of (ls, x) \<Rightarrow> (s # ls, x))"

text \<open>
  \<^verbatim>\<open>sorted(xs, key=k, reverse=True)\<close>: the elements by decreasing key, those of equal
  key in the order they have in \<open>xs\<close>.
\<close>

definition sorted_reverse :: "('a \<Rightarrow> int) \<Rightarrow> 'a list \<Rightarrow> 'a list" where
  "sorted_reverse k xs = sort_key (\<lambda>x. - k x) xs"

text \<open>The rule line \<^verbatim>\<open>'='*100\<close> of the banners.\<close>

definition rule_line :: string where
  "rule_line = replicate 100 (CHR ''='')"

section \<open>Data model\<close>

text \<open>
  A publication is the dictionary that \<^verbatim>\<open>get_publications\<close> builds for a row: the keys
  \<^verbatim>\<open>title\<close>, \<^verbatim>\<open>authors\<close>, \<^verbatim>\<open>venue\<close>, \<^verbatim>\<open>year\<close> and \<^verbatim>\<open>citations\<close> are set on every path
  through the row's extraction. The key \<^verbatim>\<open>age\<close> is absent until
  \<^verbatim>\<open>find_undercited_publications\<close> stores it, so reading it can raise \<^verbatim>\<open>KeyError\<close>.
\<close>

record publication =
  title :: string
  authors :: string
  venue :: string
  year :: string
  citations :: int
  age :: "int option"

text \<open>
  A row of the publications table, as the extractor's queries see it: the stripped text
  of the first \<^verbatim>\<open>a.gsc_a_at\<close> element if there is one, the stripped texts of all
  \<^verbatim>\<open>div.gs_gray\<close> elements in document order, and the stripped texts of the first
  \<^verbatim>\<open>span.gsc_a_h\<close> and the first \<^verbatim>\<open>a.gsc_a_ac\<close> elements if there are any.
\<close>

record pub_row =
  title_elem :: "string option"
  gray_elems :: "string list"
  year_elem :: "string option"
  citations_elem :: "string option"

text \<open>
  A profile page, as the metrics extractor's queries see it: whether a table with id
  \<^verbatim>\<open>gsc_rsb_st\<close> exists; every \<^verbatim>\<open>td.gsc_rsb_std\<close> cell of the whole page in document
  order, each with a flag telling whether it lies inside that table and with its
  stripped text; and the stripped text of the \<^verbatim>\<open>div\<close> with id \<^verbatim>\<open>gsc_prf_in\<close> if there is
  one.
\<close>

record profile_page =
  metrics_table :: bool
  std_cells :: "(bool \<times> string) list"
  name_elem :: "string option"

record profile_metrics =
  citations_all :: string
  citations_recent :: string
  h_index_all :: string
  h_index_recent :: string
  i10_index_all :: string
  i10_index_recent :: string
  name :: "string option"

section \<open>Metrics extractor\<close>

text \<open>
  \<^verbatim>\<open>get_h_index\<close>, given what the request returned. The cells are those of
  \<^verbatim>\<open>soup.find_all('td', class_='gsc_rsb_std')\<close>, a search of the whole page.
\<close>

definition get_h_index :: "fetch_failure + profile_page \<Rightarrow> profile_metrics scrape_result" where
  "get_h_index response =
     (case response of
        Inl (RequestException e) \<Rightarrow> ErrorResult (''Request failed: '' @ e)
      | Inl (OtherException e) \<Rightarrow> ErrorResult (''An error occurred: '' @ e)
      | Inr soup \<Rightarrow>
          if \<not> metrics_table soup then ErrorResult ''Could not find metrics table on the page''
          else
            let metric_values = map snd (std_cells soup) in
            if length metric_values \<ge> 6 then
              Data \<lparr>citations_all = metric_values ! 0,
                    citations_recent = metric_values ! 1,
                    h_index_all = metric_values ! 2,
                    h_index_recent = metric_values ! 3,
                    i10_index_all = metric_values ! 4,
                    i10_index_recent = metric_values ! 5,
                    name = name_elem soup\<rparr>
            else ErrorResult (''Expected 6 metric values, found '' @ str_nat (length metric_values)))"

section \<open>Publication extractor and pagination driver\<close>

definition page_size :: int where
  "page_size = 100"

text \<open>The body of the loop over the rows of a page: one dictionary per row.\<close>

definition extract_citations :: "pub_row \<Rightarrow> int" where
  "extract_citations row =
     (case citations_elem row of
        None \<Rightarrow> 0
      | Some citations_text \<Rightarrow>
          if citations_text \<noteq> [] then
            (case py_int citations_text of Inl e \<Rightarrow> 0 | Inr n \<Rightarrow> n)
          else 0)"

definition extract_publication :: "pub_row \<Rightarrow> publication" where
  "extract_publication row =
     \<lparr>title = (case title_elem row of Some t \<Rightarrow> t | None \<Rightarrow> ''N/A''),
      authors = (case gray_elems row of a # _ \<Rightarrow> a | [] \<Rightarrow> ''N/A''),
      venue = (if length (gray_elems row) > 1 then gray_elems row ! 1 else ''N/A''),
      year = (case year_elem row of
                Some year_text \<Rightarrow> if year_text \<noteq> [] then year_text else ''N/A''
              | None \<Rightarrow> ''N/A''),
      citations = extract_citations row,
      age = None\<rparr>"

text \<open>
  The \<^verbatim>\<open>while True\<close> loop of \<^verbatim>\<open>get_publications\<close>. \<open>fetch start\<close> is the request for
  the page at offset \<open>start\<close> followed by \<^verbatim>\<open>soup.find_all('tr', class_='gsc_a_tr')\<close>: it
  fails or gives the rows of that page. The loop may run forever, so its result is an
  option. Besides the accumulated publications the model returns the offsets it
  requested, in order.
\<close>

partial_function (option) pagination_loop ::
  "(int \<Rightarrow> fetch_failure + pub_row list) \<Rightarrow> int \<Rightarrow> publication list \<Rightarrow> int list
     \<Rightarrow> ((fetch_failure + publication list) \<times> int list) option" where
  "pagination_loop fetch start publications requested =
     (case fetch start of
        Inl e \<Rightarrow> Some (Inl e, requested @ [start])
      | Inr pub_rows \<Rightarrow>
          if pub_rows = [] then Some (Inr publications, requested @ [start])
          else
            let publications' = publications @ map extract_publication pub_rows in
            if int (length pub_rows) < page_size then
              Some (Inr publications', requested @ [start])
            else pagination_loop fetch (start + page_size) publications' (requested @ [start]))"

text \<open>
  \<^verbatim>\<open>re.search(key + '([^&]+)', url)\<close> and its group 1: the leftmost place where \<open>key\<close>
  is followed by at least one character other than \<^verbatim>\<open>&\<close>, and the longest run of such
  characters there.
\<close>

fun re_search_param :: "string \<Rightarrow> string \<Rightarrow> string option" where
  "re_search_param key [] = None"
| "re_search_param key (c # cs) =
     (let rest = drop (length key) (c # cs); group = takeWhile (\<lambda>x. x \<noteq> CHR ''&'') rest in
      if take (length key) (c # cs) = key \<and> group \<noteq> [] then Some group
      else re_search_param key cs)"

text \<open>
  \<^verbatim>\<open>get_publications\<close>. \<open>fetch user_id lang start\<close> stands for the request of the URL
  built from the three values and the fixed page size. The result is \<open>None\<close> when the
  loop does not end.
\<close>

definition get_publications ::
  "(string \<Rightarrow> string \<Rightarrow> int \<Rightarrow> fetch_failure + pub_row list) \<Rightarrow> string
     \<Rightarrow> publication list scrape_result option" where
  "get_publications fetch scholar_url =
     (case re_search_param ''user='' scholar_url of
        None \<Rightarrow> Some (ErrorResult ''Could not extract user ID from URL'')
      | Some user_id \<Rightarrow>
          let lang = (case re_search_param ''hl='' scholar_url of Some l \<Rightarrow> l | None \<Rightarrow> ''en'') in
          (case pagination_loop (fetch user_id lang) 0 [] [] of
             None \<Rightarrow> None
           | Some (Inl (RequestException e), _) \<Rightarrow> Some (ErrorResult (''Request failed: '' @ e))
           | Some (Inl (OtherException e), _) \<Rightarrow> Some (ErrorResult (''An error occurred: '' @ e))
           | Some (Inr publications, _) \<Rightarrow> Some (Data publications)))"

section \<open>Ranking view\<close>

text \<open>The list \<^verbatim>\<open>sorted_pubs\<close> that \<^verbatim>\<open>print_publications_sorted\<close> builds and prints.\<close>

definition sorted_pubs :: "publication list \<Rightarrow> publication list" where
  "sorted_pubs publications = sorted_reverse citations publications"

text \<open>The \<^verbatim>\<open>print\<close> calls for entry \<open>i\<close> of the ranking.\<close>

definition ranking_entry :: "nat \<times> publication \<Rightarrow> (py_error + string) list" where
  "ranking_entry ip =
     (case ip of (i, pub) \<Rightarrow>
        [Inr (str_nat i @ ''. '' @ title pub),
         Inr (''   Authors: '' @ authors pub),
         Inr (''   Venue: '' @ venue pub),
         Inr (''   Year: '' @ year pub),
         fstring [Inr ''   Citations: '', str_int (citations pub)],
         Inr []])"

text \<open>\<^verbatim>\<open>print_publications_sorted\<close>: what it prints, and the exception if it raises.\<close>

definition print_publications_sorted :: "publication list scrape_result \<Rightarrow> printed" where
  "print_publications_sorted publications =
     (case publications of
        ErrorResult msg \<Rightarrow> prints [Inr (''Error: '' @ msg)]
      | Data pubs \<Rightarrow>
          prints
            ([Inr (newline # rule_line),
              Inr (''PUBLICATIONS SORTED BY CITATIONS (Total: ''
                     @ str_nat (length (sorted_pubs pubs)) @ '')''),
              Inr (rule_line @ [newline])]
             @ concat (map ranking_entry (enumerate 1 (sorted_pubs pubs)))))"

section \<open>Undercitation view\<close>

text \<open>
  The loop of \<^verbatim>\<open>find_undercited_publications\<close>, with the list \<^verbatim>\<open>undercited\<close> as
  accumulator. A publication always has the keys \<^verbatim>\<open>year\<close> and \<^verbatim>\<open>citations\<close>, so
  \<^verbatim>\<open>pub.get('year', 'N/A')\<close> and \<^verbatim>\<open>pub.get('citations', 0)\<close> read the fields. The
  assignment \<^verbatim>\<open>pub['age'] = age\<close> is the record update of the appended entry.
\<close>

fun undercited_loop :: "int \<Rightarrow> publication list \<Rightarrow> publication list \<Rightarrow> py_error + publication list" where
  "undercited_loop current_year [] undercited = Inr undercited"
| "undercited_loop current_year (pub # pubs) undercited =
     (let year_str = year pub in
      if year_str = ''N/A'' \<or> \<not> isdigit year_str then undercited_loop current_year pubs undercited
      else
        (case py_int year_str of
           Inl e \<Rightarrow> Inl e
         | Inr y \<Rightarrow>
             let age = current_year - y in
             if age > 0 \<and> citations pub < age then
               undercited_loop current_year pubs (undercited @ [pub\<lparr>age := Some age\<rparr>])
             else undercited_loop current_year pubs undercited))"

definition find_undercited_publications ::
  "publication list scrape_result \<Rightarrow> int \<Rightarrow> py_error + publication list" where
  "find_undercited_publications publications current_year =
     (case publications of
        ErrorResult msg \<Rightarrow> Inr []
      | Data pubs \<Rightarrow> undercited_loop current_year pubs [])"

text \<open>
  The list \<^verbatim>\<open>sorted_undercited\<close> of \<^verbatim>\<open>print_undercited_publications\<close>. \<^verbatim>\<open>sorted\<close>
  computes the key \<^verbatim>\<open>x['age'] - x['citations']\<close> of every element before it orders
  them, so an element without \<^verbatim>\<open>age\<close> raises \<^verbatim>\<open>KeyError\<close> before anything is printed.
\<close>

definition deficit_key :: "publication \<Rightarrow> int" where
  "deficit_key x = the (age x) - citations x"

definition sorted_undercited :: "publication list \<Rightarrow> py_error + publication list" where
  "sorted_undercited undercited_pubs =
     (if list_ex (\<lambda>x. age x = None) undercited_pubs then Inl KeyError
      else Inr (sorted_reverse deficit_key undercited_pubs))"

text \<open>
  The body of the printing loop for entry \<open>i\<close>: the deficit is computed first, then come
  the \<^verbatim>\<open>print\<close> calls.
\<close>

definition undercited_entry :: "nat \<times> publication \<Rightarrow> (py_error + string) list" where
  "undercited_entry ip =
     (case ip of (i, pub) \<Rightarrow>
        (case age pub of
           None \<Rightarrow> [Inl KeyError]
         | Some a \<Rightarrow>
             let deficit = a - citations pub in
             [Inr (str_nat i @ ''. '' @ title pub),
              Inr (''   Authors: '' @ authors pub),
              Inr (''   Venue: '' @ venue pub),
              fstring [Inr (''   Year: '' @ year pub @ '' (Age: ''), str_int a, Inr '' years)''],
              fstring [Inr ''   Citations: '', str_int (citations pub),
                       Inr '' (Deficit: '', str_int deficit, Inr '' citations)''],
              Inr []]))"

definition none_found_banner :: "string list" where
  "none_found_banner =
     [newline # rule_line,
      ''UNDERCITED PUBLICATIONS (Citations < Age in Years)'',
      rule_line,
      newline # ''No undercited publications found.'']"

text \<open>
  \<^verbatim>\<open>print_undercited_publications\<close>: what it prints, and the exception if it raises.
  The function has no test for the error dictionary. Given \<^verbatim>\<open>{"error": msg}\<close>, which is
  not empty, it goes on to \<^verbatim>\<open>sorted\<close>, which iterates over the dictionary's keys and
  applies the key function to the string \<^verbatim>\<open>'error'\<close>; indexing a string with \<^verbatim>\<open>'age'\<close>
  raises \<^verbatim>\<open>TypeError\<close> before anything is printed.
\<close>

definition print_undercited_publications :: "publication list scrape_result \<Rightarrow> printed" where
  "print_undercited_publications undercited_pubs =
     (case undercited_pubs of
        ErrorResult msg \<Rightarrow> ([], Some TypeError)
      | Data us \<Rightarrow>
          if us = [] then prints (map Inr none_found_banner)
          else
            (case sorted_undercited us of
               Inl e \<Rightarrow> ([], Some e)
             | Inr sorted_us \<Rightarrow>
                 prints
                   ([Inr (newline # rule_line),
                     Inr (''UNDERCITED PUBLICATIONS (Citations < Age in Years) - Total: ''
                            @ str_nat (length sorted_us)),
                     Inr (rule_line @ [newline])]
                    @ concat (map undercited_entry (enumerate 1 sorted_us)))))"

section \<open>Summary view\<close>

text \<open>
  The summary block of the main program. \<^verbatim>\<open>total / len\<close> is Python's true division of
  two integers: it raises \<^verbatim>\<open>ZeroDivisionError\<close> for a zero divisor; otherwise the result
  is the double (IEEE 754 binary64) nearest to the exact quotient, a tie going to the
  double with the even significand, and \<^verbatim>\<open>OverflowError\<close> is raised when that rounding
  leaves the range of the doubles. A float is modelled by its value, a rational number;
  the sign of a zero is not kept.
\<close>

definition total_citations :: "publication list \<Rightarrow> int" where
  "total_citations publications = sum_list (map citations publications)"

text \<open>Rounding to the nearest integer, a tie going to the even one.\<close>

definition round_half_even :: "rat \<Rightarrow> int" where
  "round_half_even x =
     (let f = \<lfloor>x\<rfloor>; d = x - of_int f in
      if d < 1 / 2 then f else if d > 1 / 2 then f + 1 else if even f then f else f + 1)"

text \<open>
  For \<open>x > 0\<close>, the exponent \<open>e\<close> with \<open>2 ^ e \<le> x < 2 ^ (e + 1)\<close>, found from the bit
  lengths of numerator and denominator.
\<close>

definition binary_exponent :: "rat \<Rightarrow> int" where
  "binary_exponent x =
     (case quotient_of x of (a, b) \<Rightarrow>
        let e0 = bitlen a - bitlen b in
        if 2 powi e0 \<le> x then e0 else e0 - 1)"

text \<open>
  The doubles around \<open>q\<close> are the multiples of \<open>2 ^ (e - 52)\<close>, where \<open>e\<close> is the binary
  exponent of \<open>\<bar>q\<bar>\<close> but not less than \<open>-1022\<close> (below that the doubles are subnormal).
\<close>

definition nearest_double :: "rat \<Rightarrow> rat" where
  "nearest_double q =
     (if q = 0 then 0
      else
        let e = max (binary_exponent \<bar>q\<bar>) (- 1022);
            ulp = 2 powi (e - 52)
        in sgn q * of_int (round_half_even (\<bar>q\<bar> / ulp)) * ulp)"

definition py_truediv :: "int \<Rightarrow> int \<Rightarrow> py_error + rat" where
  "py_truediv a b =
     (if b = 0 then Inl ZeroDivisionError
      else
        let r = nearest_double (of_int a / of_int b) in
        if \<bar>r\<bar> \<ge> 2 ^ 1024 then Inl OverflowError else Inr r)"

definition avg_citations :: "publication list \<Rightarrow> py_error + rat" where
  "avg_citations publications =
     (if publications \<noteq> [] then
        py_truediv (total_citations publications) (int (length publications))
      else Inr 0)"

text \<open>The string for the \<^verbatim>\<open>print\<close> call of the last but one line of the block.\<close>

definition most_cited_line :: "publication list \<Rightarrow> py_error + string" where
  "most_cited_line publications =
     (case publications of
        p # _ \<Rightarrow> fstring [Inr ''Most Cited Publication: '', str_int (citations p),
                          Inr '' citations'']
      | [] \<Rightarrow> Inr ''N/A'')"

record summary =
  total_publications :: nat
  total :: int
  average :: rat
  most_cited :: string
  undercited_count :: nat

text \<open>
  The block runs only for a list that is not empty; \<open>None\<close> stands for the block being
  skipped. The model gives the figures the block prints when it runs to its end, and
  the exception when it does not: \<open>average\<close> is the value formatted into the line of the
  average, \<open>most_cited\<close> the line of the most cited publication. The division of the
  average comes before the first \<^verbatim>\<open>print\<close> of the block; the f-string with the total
  and the one with the first citation count convert an integer to text and raise
  \<^verbatim>\<open>ValueError\<close> beyond 4300 digits. The lengths of the two lists are lengths of lists
  held in memory, far below that limit, and formatting the average with \<^verbatim>\<open>.2f\<close> does
  not raise; the text of the average is not modelled.
\<close>

definition summary_statistics ::
  "publication list scrape_result \<Rightarrow> publication list \<Rightarrow> py_error + summary option" where
  "summary_statistics publications undercited =
     (case publications of
        ErrorResult msg \<Rightarrow> Inr None
      | Data pubs \<Rightarrow>
          if pubs \<noteq> [] then
            (case avg_citations pubs of
               Inl e \<Rightarrow> Inl e
             | Inr avg \<Rightarrow>
                 (case str_int (total_citations pubs) of
                    Inl e \<Rightarrow> Inl e
                  | Inr total_text \<Rightarrow>
                      (case most_cited_line pubs of
                         Inl e \<Rightarrow> Inl e
                       | Inr line \<Rightarrow>
                           Inr (Some \<lparr>total_publications = length pubs,
                                      total = total_citations pubs,
                                      average = avg,
                                      most_cited = line,
                                      undercited_count = length undercited\<rparr>))))
          else Inr None)"

section \<open>Notions of the specification\<close>

text \<open>
  A year is strictly numeric when it is a non-empty string of decimal digits; its value
  is the number the digits denote.
\<close>

definition strictly_numeric :: "string \<Rightarrow> bool" where
  "strictly_numeric s = (s \<noteq> [] \<and> set s \<subseteq> set ''0123456789'')"

definition decimal_value :: "string \<Rightarrow> int" where
  "decimal_value s = foldl (\<lambda>acc c. 10 * acc + digit_value c) 0 s"

text \<open>The three conditions of the undercitation view, and the entry it stores.\<close>

definition is_undercited :: "int \<Rightarrow> publication \<Rightarrow> bool" where
  "is_undercited current_year pub =
     (strictly_numeric (year pub)
      \<and> current_year - decimal_value (year pub) > 0
      \<and> citations pub < current_year - decimal_value (year pub))"

definition with_age :: "int \<Rightarrow> publication \<Rightarrow> publication" where
  "with_age current_year pub = pub\<lparr>age := Some (current_year - decimal_value (year pub))\<rparr>"

text \<open>
  An integer that can be converted to text has at most 4300 digits; its text is its
  decimal notation, with a minus sign if it is negative.
\<close>

definition printable :: "int \<Rightarrow> bool" where
  "printable i = (\<bar>i\<bar> < 10 ^ 4300)"

definition decimal :: "int \<Rightarrow> string" where
  "decimal i = (if i < 0 then CHR ''-'' # str_nat (nat (- i)) else str_nat (nat i))"

text \<open>A list is in non-increasing order of a key.\<close>

definition non_increasing :: "('a \<Rightarrow> int) \<Rightarrow> 'a list \<Rightarrow> bool" where
  "non_increasing k xs = sorted_wrt (\<lambda>a b. k a \<ge> k b) xs"

text \<open>
  \<open>ys\<close> keeps the order of \<open>xs\<close> among elements of equal key: for each key value, the
  elements with that key appear in \<open>ys\<close> as they do in \<open>xs\<close>.
\<close>

definition ties_in_order :: "('a \<Rightarrow> int) \<Rightarrow> 'a list \<Rightarrow> 'a list \<Rightarrow> bool" where
  "ties_in_order k xs ys = (\<forall>v. filter (\<lambda>x. k x = v) ys = filter (\<lambda>x. k x = v) xs)"

text \<open>
  The pages of a run of the pagination driver that starts at offset \<open>start\<close>: the rows of
  page \<open>i\<close>, the page at offset \<open>start + 100 * i\<close>; a fetch that makes the loop go on (it
  succeeds with at least a page size of rows); and a fetch that ends it with a result
  (it succeeds with fewer rows than the page size, possibly none).
\<close>

definition page_rows :: "(int \<Rightarrow> fetch_failure + pub_row list) \<Rightarrow> int \<Rightarrow> nat \<Rightarrow> pub_row list" where
  "page_rows fetch start i =
     (case fetch (start + page_size * int i) of Inr rows \<Rightarrow> rows | Inl e \<Rightarrow> [])"

definition full_page :: "(int \<Rightarrow> fetch_failure + pub_row list) \<Rightarrow> int \<Rightarrow> bool" where
  "full_page fetch start =
     (case fetch start of Inr rows \<Rightarrow> page_size \<le> int (length rows) | Inl e \<Rightarrow> False)"

definition short_page :: "(int \<Rightarrow> fetch_failure + pub_row list) \<Rightarrow> int \<Rightarrow> bool" where
  "short_page fetch start =
     (case fetch start of Inr rows \<Rightarrow> int (length rows) < page_size | Inl e \<Rightarrow> False)"

text \<open>The text of the citation indicator of a row, if there is one, has no minus sign.\<close>

definition no_minus_sign :: "pub_row \<Rightarrow> bool" where
  "no_minus_sign row = (case citations_elem row of None \<Rightarrow> True | Some t \<Rightarrow> CHR ''-'' \<notin> set t)"




section \<open>Digits, \<^verbatim>\<open>isdigit\<close> and \<^verbatim>\<open>int\<close>\<close>

lemmas int_eval =
  py_int_def int_text_def is_ascii_def strip_def is_space_def int_unsigned_def
  int_max_str_digits_def is_digit_def digit_value_def

lemma strictly_numeric_iff: "strictly_numeric s \<longleftrightarrow> s \<noteq> [] \<and> list_all is_digit s"
  unfolding strictly_numeric_def list_all_iff is_digit_def by blast

lemma strictly_numeric_isdigit: "strictly_numeric s \<Longrightarrow> isdigit s"
  by (simp add: strictly_numeric_iff isdigit_def is_unicode_digit_def list_all_iff)

lemma is_digit_ascii: "is_digit c \<Longrightarrow> is_ascii c"
  unfolding is_digit_def is_ascii_def by auto

lemma is_digit_not_space: "is_digit c \<Longrightarrow> \<not> is_space c"
  unfolding is_digit_def is_space_def by auto

lemma is_digit_not_sign: "is_digit c \<Longrightarrow> c \<noteq> CHR ''-'' \<and> c \<noteq> CHR ''+''"
  unfolding is_digit_def by auto

lemma int_text_digits: "list_all is_digit s \<Longrightarrow> int_text s = s"
  by (simp add: int_text_def list_all_iff is_digit_ascii)

lemma dropWhile_digit: "s \<noteq> [] \<Longrightarrow> is_digit (hd s) \<Longrightarrow> dropWhile is_space s = s"
  by (cases s) (auto simp: is_digit_not_space)

lemma strip_digits:
  assumes "s \<noteq> []" and "list_all is_digit s"
  shows "strip s = s"
proof -
  from assms have "is_digit (hd s)" and "is_digit (hd (rev s))"
    by (auto simp: list_all_iff hd_rev)
  with assms show ?thesis
    by (simp add: strip_def dropWhile_digit)
qed

lemma int_digits_all:
  "list_all is_digit s \<Longrightarrow>
     int_digits acc s = Some (foldl (\<lambda>a c. 10 * a + digit_value c) acc s)"
  by (induction s arbitrary: acc) auto

lemma filter_digits: "list_all is_digit s \<Longrightarrow> filter is_digit s = s"
  by (simp add: list_all_iff)

text \<open>
  On a non-empty string of decimal digits \<^verbatim>\<open>int\<close> gives the value of the numeral when
  the string has at most 4300 characters, and raises when it has more.
\<close>

lemma int_unsigned_digits:
  assumes "strictly_numeric s"
  shows "int_unsigned s
    = (if length s > int_max_str_digits then None else Some (decimal_value s))"
proof -
  from assms obtain c cs where s: "s = c # cs" and c: "is_digit c" and cs: "list_all is_digit cs"
    by (cases s) (auto simp: strictly_numeric_iff)
  show ?thesis
    using c cs
    by (simp add: s int_unsigned_def int_digits_all decimal_value_def filter_digits)
qed

lemma py_int_decimal:
  assumes "strictly_numeric s"
  shows "py_int s
    = (if length s > int_max_str_digits then Inl ValueError else Inr (decimal_value s))"
proof -
  from assms obtain c cs where s: "s = c # cs" and c: "is_digit c" and cs: "list_all is_digit cs"
    by (cases s) (auto simp: strictly_numeric_iff)
  have all: "list_all is_digit s"
    using c cs by (simp add: s)
  have "strip (int_text s) = s"
    using all by (simp add: int_text_digits strip_digits s)
  then show ?thesis
    using is_digit_not_sign [OF c] int_unsigned_digits [OF assms]
    by (simp add: py_int_def s)
qed

text \<open>
  The superscript two passes \<^verbatim>\<open>isdigit\<close>, and \<^verbatim>\<open>int\<close> raises on it.
\<close>

lemma isdigit_superscript: "isdigit [CHR 0xB2]"
  by (simp add: isdigit_def is_unicode_digit_def)

lemma py_int_superscript: "py_int [CHR 0xB2] = Inl ValueError"
  by (simp add: int_eval)

section \<open>The sort of the views\<close>

lemma sorted_reverse_non_increasing: "non_increasing k (sorted_reverse k xs)"
proof -
  have "sorted (map (\<lambda>x. - k x) (sort_key (\<lambda>x. - k x) xs))"
    by (rule sorted_sort_key)
  then show ?thesis
    by (simp add: non_increasing_def sorted_reverse_def sorted_map)
qed

lemma sorted_reverse_mset: "mset (sorted_reverse k xs) = mset xs"
  by (simp add: sorted_reverse_def)

lemma sorted_reverse_ties: "ties_in_order k xs (sorted_reverse k xs)"
proof -
  have "filter (\<lambda>x. k x = v) (sorted_reverse k xs) = filter (\<lambda>x. k x = v) xs" for v
    using sort_key_stable [of "\<lambda>x. - k x" "- v" xs]
    by (simp add: sorted_reverse_def)
  then show ?thesis
    by (simp add: ties_in_order_def)
qed

section \<open>Undercitation view: selection\<close>

text \<open>
  When every year that passes \<^verbatim>\<open>isdigit\<close> is a decimal numeral of at most 4300 digits,
  the loop of \<^verbatim>\<open>find_undercited_publications\<close> does not raise and selects the
  publications that meet the three conditions, in their order, each with its age.
\<close>

lemma undercited_loop_decimal_years:
  assumes "\<forall>p \<in> set pubs. isdigit (year p) \<longrightarrow>
             strictly_numeric (year p) \<and> length (year p) \<le> int_max_str_digits"
  shows "undercited_loop cy pubs acc
     = Inr (acc @ map (with_age cy) (filter (is_undercited cy) pubs))"
  using assms
proof (induction pubs arbitrary: acc)
  case Nil
  show ?case by simp
next
  case (Cons pub pubs)
  then have IH: "undercited_loop cy pubs acc'
     = Inr (acc' @ map (with_age cy) (filter (is_undercited cy) pubs))" for acc'
    by simp
  show ?case
  proof (cases "isdigit (year pub)")
    case False
    then have "\<not> is_undercited cy pub"
      using strictly_numeric_isdigit by (auto simp: is_undercited_def)
    with False show ?thesis
      by (simp add: IH)
  next
    case True
    with Cons.prems have num: "strictly_numeric (year pub)"
      and len: "length (year pub) \<le> int_max_str_digits"
      by simp_all
    from num have ne: "year pub \<noteq> ''N/A''"
      by (auto simp: strictly_numeric_def)
    have int: "py_int (year pub) = Inr (decimal_value (year pub))"
      using len by (simp add: py_int_decimal [OF num])
    have sel: "is_undercited cy pub \<longleftrightarrow>
        cy - decimal_value (year pub) > 0 \<and> citations pub < cy - decimal_value (year pub)"
      using num by (simp add: is_undercited_def)
    have upd: "with_age cy pub = pub\<lparr>age := Some (cy - decimal_value (year pub))\<rparr>"
      by (simp add: with_age_def)
    show ?thesis
      using True ne
      by (simp add: int IH sel upd Let_def)
  qed
qed

text \<open>
  C1. The claim holds of the code only as far as \<^verbatim>\<open>int(year_str)\<close> does not raise. The
  call stands outside any \<^verbatim>\<open>try\<close>, and a year passes the test with \<^verbatim>\<open>isdigit\<close> without
  being a numeral that \<^verbatim>\<open>int\<close> accepts: the superscript two, or a string of 4301
  digits. Then \<^verbatim>\<open>find_undercited_publications\<close> raises \<^verbatim>\<open>ValueError\<close> and returns
  nothing, although the comment above the test announces that such a year is skipped, and
  although the list holds a publication that meets the three conditions.
\<close>

theorem undercited_unguarded_int_raises:
  "find_undercited_publications
     (Data [\<lparr>title = ''B'', authors = ''Y'', venue = ''W'', year = ''2001'', citations = 3, age = None\<rparr>,
            \<lparr>title = ''C'', authors = ''Z'', venue = ''U'', year = [CHR 0xB2], citations = 0, age = None\<rparr>])
     2025
   = Inl ValueError
   \<and> find_undercited_publications
     (Data [\<lparr>title = ''B'', authors = ''Y'', venue = ''W'', year = ''2001'', citations = 3, age = None\<rparr>,
            \<lparr>title = ''D'', authors = ''Z'', venue = ''U'', year = replicate 4301 (CHR ''1''),
              citations = 0, age = None\<rparr>])
     2025
   = Inl ValueError
   \<and> find_undercited_publications
     (Data [\<lparr>title = ''B'', authors = ''Y'', venue = ''W'', year = ''2001'', citations = 3, age = None\<rparr>])
     2025
   = Inr [\<lparr>title = ''B'', authors = ''Y'', venue = ''W'', year = ''2001'', citations = 3, age = Some 24\<rparr>]"
proof -
  have y: "isdigit ''2001''" "py_int ''2001'' = Inr 2001"
    by (simp_all add: isdigit_def is_unicode_digit_def int_eval)
  have long: "strictly_numeric (replicate 4301 (CHR ''1''))"
    by (simp add: strictly_numeric_def)
  have l: "isdigit (replicate 4301 (CHR ''1''))"
    using long by (rule strictly_numeric_isdigit)
  have "py_int (replicate 4301 (CHR ''1'')) = Inl ValueError"
    by (simp add: py_int_decimal [OF long] int_max_str_digits_def)
  moreover have "length (replicate 4301 (CHR ''1'')) \<noteq> length ''N/A''"
    by simp
  then have "replicate 4301 (CHR ''1'') \<noteq> ''N/A''"
    by (rule contrapos_nn) (simp only:)
  ultimately show ?thesis
    using l by (simp add: find_undercited_publications_def y isdigit_superscript py_int_superscript)
qed

section \<open>Printing\<close>

lemma prints_all_Inr: "list_all (\<lambda>x. \<not> isl x) xs \<Longrightarrow> prints xs = (map projr xs, None)"
proof (induction xs)
  case Nil
  show ?case by simp
next
  case (Cons x xs)
  then show ?case by (cases x) simp_all
qed

lemma prints_map_Inr: "prints (map Inr ls) = (ls, None)"
  by (induction ls) simp_all

lemma str_nat_not_Nil: "str_nat n \<noteq> []"
  by (subst str_nat.simps) simp

lemma length_str_nat: "0 < k \<Longrightarrow> length (str_nat n) \<le> k \<longleftrightarrow> n < 10 ^ k"
proof (induction n arbitrary: k rule: str_nat.induct)
  case (1 n)
  show ?case
  proof (cases "n < 10")
    case True
    have "(10::nat) ^ 1 \<le> 10 ^ k"
      using 1(2) by (intro power_increasing) simp_all
    with True have "n < 10 ^ k" by simp
    with True 1(2) show ?thesis
      by (simp add: str_nat.simps [of n] Suc_le_eq)
  next
    case False
    show ?thesis
    proof (cases "k = 1")
      case True
      with False show ?thesis
        by (simp add: str_nat.simps [of n] str_nat_not_Nil)
    next
      case k: False
      with 1(2) obtain j where j: "k = Suc j" "0 < j"
        by (cases k) auto
      from 1(1) [OF False j(2)] have "length (str_nat (n div 10)) \<le> j \<longleftrightarrow> n div 10 < 10 ^ j" .
      moreover have "n div 10 < 10 ^ j \<longleftrightarrow> n < 10 ^ Suc j"
        by (simp add: div_less_iff_less_mult mult.commute)
      ultimately show ?thesis
        using False by (simp add: str_nat.simps [of n] j(1))
    qed
  qed
qed

lemma printable_iff: "printable i \<longleftrightarrow> length (str_nat (nat \<bar>i\<bar>)) \<le> int_max_str_digits"
proof -
  have "length (str_nat (nat \<bar>i\<bar>)) \<le> 4300 \<longleftrightarrow> nat \<bar>i\<bar> < 10 ^ 4300"
    by (rule length_str_nat) simp
  also have "\<dots> \<longleftrightarrow> \<bar>i\<bar> < 10 ^ 4300"
    by (simp add: nat_less_iff del: power_numeral)
  finally show ?thesis
    by (simp only: printable_def int_max_str_digits_def)
qed

lemma printable_small: "\<bar>i\<bar> < 100 \<Longrightarrow> printable i"
proof -
  assume "\<bar>i\<bar> < 100"
  moreover have "(10::int) ^ 2 \<le> 10 ^ 4300"
    by (rule power_increasing) simp_all
  moreover have "(10::int) ^ 2 = 100"
    by simp
  ultimately show ?thesis
    unfolding printable_def by linarith
qed

lemma str_int_eq: "str_int i = (if printable i then Inr (decimal i) else Inl ValueError)"
  by (simp add: str_int_def printable_iff decimal_def Let_def not_le)

lemma str_int_printable: "printable i \<Longrightarrow> \<exists>s. str_int i = Inr s"
  by (simp add: str_int_eq)

lemma snd_in_set_enumerate: "ip \<in> set (enumerate n xs) \<Longrightarrow> snd ip \<in> set xs"
  by (metis enumerate_eq_zip in_set_zipE prod.collapse)

lemma fstring_all_Inr: "list_all (\<lambda>x. \<not> isl x) xs \<Longrightarrow> \<not> isl (fstring xs)"
proof (induction xs)
  case Nil
  show ?case by simp
next
  case (Cons x xs)
  then show ?case by (cases x) (auto split: sum.splits)
qed

lemma concat_all: "(\<And>x. x \<in> set xs \<Longrightarrow> list_all P (f x)) \<Longrightarrow> list_all P (concat (map f xs))"
  by (induction xs) simp_all

lemma str_int_small: "str_int 1 = Inr ''1''" "str_int 5 = Inr ''5''"
  by (simp_all add: str_int_eq printable_small decimal_def str_nat.simps digit_char_def)

section \<open>Ranking view: order\<close>

lemma ranking_entry_printable:
  "printable (citations pub) \<Longrightarrow> list_all (\<lambda>x. \<not> isl x) (ranking_entry (i, pub))"
  by (auto simp: ranking_entry_def dest!: str_int_printable)

text \<open>
  C3. For every list of publications, the list that \<^verbatim>\<open>print_publications_sorted\<close> builds
  is in non-increasing order of the citation count, has the same entries with the same
  multiplicities as the input, and keeps entries of equal citation count in their order
  of arrival. Its entries are printed in this order; the printing goes through whenever
  every citation count has at most 4300 digits.
\<close>

theorem ranking_sorted_permutation_stable:
  "non_increasing citations (sorted_pubs pubs)
     \<and> mset (sorted_pubs pubs) = mset pubs
     \<and> ties_in_order citations pubs (sorted_pubs pubs)
     \<and> print_publications_sorted (Data pubs)
         = prints
             ([Inr (newline # rule_line),
               Inr (''PUBLICATIONS SORTED BY CITATIONS (Total: '' @ str_nat (length pubs) @ '')''),
               Inr (rule_line @ [newline])]
              @ concat (map ranking_entry (enumerate 1 (sorted_pubs pubs))))
     \<and> (list_all (\<lambda>p. printable (citations p)) pubs
          \<longrightarrow> snd (print_publications_sorted (Data pubs)) = None)"
proof -
  have len: "length (sorted_pubs pubs) = length pubs"
    by (simp add: sorted_pubs_def sorted_reverse_def)
  have print: "print_publications_sorted (Data pubs)
         = prints
             ([Inr (newline # rule_line),
               Inr (''PUBLICATIONS SORTED BY CITATIONS (Total: '' @ str_nat (length pubs) @ '')''),
               Inr (rule_line @ [newline])]
              @ concat (map ranking_entry (enumerate 1 (sorted_pubs pubs))))"
    by (simp add: print_publications_sorted_def len)
  have complete: "snd (print_publications_sorted (Data pubs)) = None"
    if all: "list_all (\<lambda>p. printable (citations p)) pubs"
  proof -
    have "set (sorted_pubs pubs) = set pubs"
      using sorted_reverse_mset [of citations pubs] by (metis mset_eq_setD sorted_pubs_def)
    with all have "list_all (\<lambda>x. \<not> isl x) (ranking_entry ip)"
      if "ip \<in> set (enumerate 1 (sorted_pubs pubs))" for ip
      using snd_in_set_enumerate [OF that] ranking_entry_printable [of "snd ip" "fst ip"]
      by (simp add: list_all_iff)
    then have "list_all (\<lambda>x. \<not> isl x)
        (concat (map ranking_entry (enumerate 1 (sorted_pubs pubs))))"
      by (rule concat_all)
    then show ?thesis
      by (simp add: print prints_all_Inr)
  qed
  show ?thesis
    using print complete
    by (simp add: sorted_pubs_def sorted_reverse_non_increasing sorted_reverse_mset
        sorted_reverse_ties)
qed

theorem ranking_sorted_permutation_stable_witness:
  "sorted_pubs
     [\<lparr>title = ''A'', authors = ''X'', venue = ''V'', year = ''2019'', citations = 4, age = None\<rparr>,
      \<lparr>title = ''B'', authors = ''Y'', venue = ''W'', year = ''2001'', citations = 9, age = None\<rparr>,
      \<lparr>title = ''C'', authors = ''Z'', venue = ''U'', year = ''N/A'', citations = 4, age = None\<rparr>]
   = [\<lparr>title = ''B'', authors = ''Y'', venue = ''W'', year = ''2001'', citations = 9, age = None\<rparr>,
      \<lparr>title = ''A'', authors = ''X'', venue = ''V'', year = ''2019'', citations = 4, age = None\<rparr>,
      \<lparr>title = ''C'', authors = ''Z'', venue = ''U'', year = ''N/A'', citations = 4, age = None\<rparr>]
   \<and> non_increasing citations (sorted_pubs
     [\<lparr>title = ''A'', authors = ''X'', venue = ''V'', year = ''2019'', citations = 4, age = None\<rparr>,
      \<lparr>title = ''B'', authors = ''Y'', venue = ''W'', year = ''2001'', citations = 9, age = None\<rparr>,
      \<lparr>title = ''C'', authors = ''Z'', venue = ''U'', year = ''N/A'', citations = 4, age = None\<rparr>])
   \<and> snd (print_publications_sorted (Data
     [\<lparr>title = ''A'', authors = ''X'', venue = ''V'', year = ''2019'', citations = 4, age = None\<rparr>,
      \<lparr>title = ''B'', authors = ''Y'', venue = ''W'', year = ''2001'', citations = 9, age = None\<rparr>,
      \<lparr>title = ''C'', authors = ''Z'', venue = ''U'', year = ''N/A'', citations = 4, age = None\<rparr>]))
     = None"
proof -
  let ?ex = "[\<lparr>title = ''A'', authors = ''X'', venue = ''V'', year = ''2019'', citations = 4, age = None\<rparr>,
      \<lparr>title = ''B'', authors = ''Y'', venue = ''W'', year = ''2001'', citations = 9, age = None\<rparr>,
      \<lparr>title = ''C'', authors = ''Z'', venue = ''U'', year = ''N/A'', citations = 4, age = None\<rparr>]"
  have s: "sorted_pubs ?ex
   = [\<lparr>title = ''B'', authors = ''Y'', venue = ''W'', year = ''2001'', citations = 9, age = None\<rparr>,
      \<lparr>title = ''A'', authors = ''X'', venue = ''V'', year = ''2019'', citations = 4, age = None\<rparr>,
      \<lparr>title = ''C'', authors = ''Z'', venue = ''U'', year = ''N/A'', citations = 4, age = None\<rparr>]"
    by (simp add: sorted_pubs_def sorted_reverse_def)
  have p: "list_all (\<lambda>p. printable (citations p)) ?ex"
    by (simp add: printable_small)
  from ranking_sorted_permutation_stable [of ?ex] p
  have a: "non_increasing citations (sorted_pubs ?ex)"
    and b: "snd (print_publications_sorted (Data ?ex)) = None"
    by blast+
  show ?thesis
    by (rule conjI [OF s conjI [OF a b]])
qed

section \<open>Undercitation view: order of the rendering\<close>

lemma list_all_mset:
  "mset ys = mset xs \<Longrightarrow> list_all P xs \<Longrightarrow> list_all P ys"
  by (metis list_all_iff mset_eq_setD)

lemma undercited_entry_printable:
  assumes "age pub = Some a" and "printable a" and "printable (citations pub)"
    and "printable (deficit_key pub)"
  shows "list_all (\<lambda>x. \<not> isl x) (undercited_entry (i, pub))"
proof -
  from assms(2) obtain s1 where s1: "str_int a = Inr s1"
    using str_int_printable by blast
  from assms(3) obtain s2 where s2: "str_int (citations pub) = Inr s2"
    using str_int_printable by blast
  from assms(4) obtain s3 where s3: "str_int (a - citations pub) = Inr s3"
    using str_int_printable by (auto simp: deficit_key_def assms(1))
  show ?thesis
    by (simp add: undercited_entry_def assms(1) s1 s2 s3 Let_def)
qed

text \<open>
  C2. For every list of undercited publications that all carry an age, the list whose
  entries \<^verbatim>\<open>print_undercited_publications\<close> prints in order is a rearrangement of the
  input in non-increasing order of the deficit \<open>age - citations\<close>, entries of equal
  deficit keeping their order in the input; the printing goes through whenever the ages,
  the citation counts and the deficits have at most 4300 digits. For the publications
  with years 2020, 2023 and N/A and citations 2, 1 and 0, and the current year 2025, the
  selection is the first (age 5, deficit 3) and the second (age 2, deficit 1), the third
  is left out, and the rendering lists them in that order.
\<close>

theorem undercitation_view_sorted:
  "(list_all (\<lambda>x. age x \<noteq> None) us \<longrightarrow>
      (\<exists>out. sorted_undercited us = Inr out
         \<and> non_increasing deficit_key out
         \<and> ties_in_order deficit_key us out
         \<and> mset out = mset us
         \<and> print_undercited_publications (Data us)
             = (if us = [] then (none_found_banner, None)
                else prints
                  ([Inr (newline # rule_line),
                    Inr (''UNDERCITED PUBLICATIONS (Citations < Age in Years) - Total: ''
                           @ str_nat (length out)),
                    Inr (rule_line @ [newline])]
                   @ concat (map undercited_entry (enumerate 1 out))))
         \<and> (list_all (\<lambda>x. printable (the (age x)) \<and> printable (citations x)
                            \<and> printable (deficit_key x)) us
              \<longrightarrow> snd (print_undercited_publications (Data us)) = None)))
   \<and> find_undercited_publications
        (Data [p1\<lparr>year := ''2020'', citations := 2\<rparr>,
               p2\<lparr>year := ''2023'', citations := 1\<rparr>,
               p3\<lparr>year := ''N/A'', citations := 0\<rparr>]) 2025
      = Inr [p1\<lparr>year := ''2020'', citations := 2, age := Some 5\<rparr>,
             p2\<lparr>year := ''2023'', citations := 1, age := Some 2\<rparr>]
   \<and> sorted_undercited
        [p1\<lparr>year := ''2020'', citations := 2, age := Some 5\<rparr>,
         p2\<lparr>year := ''2023'', citations := 1, age := Some 2\<rparr>]
      = Inr [p1\<lparr>year := ''2020'', citations := 2, age := Some 5\<rparr>,
             p2\<lparr>year := ''2023'', citations := 1, age := Some 2\<rparr>]
   \<and> deficit_key (p1\<lparr>year := ''2020'', citations := 2, age := Some 5\<rparr>) = 3
   \<and> deficit_key (p2\<lparr>year := ''2023'', citations := 1, age := Some 2\<rparr>) = 1"
proof -
  have general: "\<exists>out. sorted_undercited us = Inr out
         \<and> non_increasing deficit_key out
         \<and> ties_in_order deficit_key us out
         \<and> mset out = mset us
         \<and> print_undercited_publications (Data us)
             = (if us = [] then (none_found_banner, None)
                else prints
                  ([Inr (newline # rule_line),
                    Inr (''UNDERCITED PUBLICATIONS (Citations < Age in Years) - Total: ''
                           @ str_nat (length out)),
                    Inr (rule_line @ [newline])]
                   @ concat (map undercited_entry (enumerate 1 out))))
         \<and> (list_all (\<lambda>x. printable (the (age x)) \<and> printable (citations x)
                            \<and> printable (deficit_key x)) us
              \<longrightarrow> snd (print_undercited_publications (Data us)) = None)"
    if ages: "list_all (\<lambda>x. age x \<noteq> None) us"
  proof -
    let ?out = "sorted_reverse deficit_key us"
    let ?ok = "\<lambda>x. printable (the (age x)) \<and> printable (citations x) \<and> printable (deficit_key x)"
    have "\<not> list_ex (\<lambda>x. age x = None) us"
      using ages by (simp add: list_all_iff list_ex_iff)
    then have s: "sorted_undercited us = Inr ?out"
      by (simp add: sorted_undercited_def)
    have print: "print_undercited_publications (Data us)
             = (if us = [] then (none_found_banner, None)
                else prints
                  ([Inr (newline # rule_line),
                    Inr (''UNDERCITED PUBLICATIONS (Citations < Age in Years) - Total: ''
                           @ str_nat (length ?out)),
                    Inr (rule_line @ [newline])]
                   @ concat (map undercited_entry (enumerate 1 ?out))))"
      by (simp add: print_undercited_publications_def s prints_map_Inr del: One_nat_def)
    have complete: "snd (print_undercited_publications (Data us)) = None"
      if ok: "list_all ?ok us"
    proof (cases "us = []")
      case True
      with print show ?thesis by simp
    next
      case False
      have ages': "list_all (\<lambda>x. age x \<noteq> None) ?out"
        using ages by (rule list_all_mset [OF sorted_reverse_mset])
      have ok': "list_all ?ok ?out"
        using ok by (rule list_all_mset [OF sorted_reverse_mset])
      have "list_all (\<lambda>x. \<not> isl x) (undercited_entry ip)"
        if "ip \<in> set (enumerate 1 ?out)" for ip
      proof -
        have m: "snd ip \<in> set ?out"
          by (rule snd_in_set_enumerate [OF that])
        with ages' have "age (snd ip) \<noteq> None"
          by (simp add: list_all_iff)
        then obtain a where a: "age (snd ip) = Some a"
          by blast
        from ok' m have k: "?ok (snd ip)"
          by (simp add: list_all_iff)
        from a k show ?thesis
          using undercited_entry_printable [of "snd ip" a "fst ip"] by simp
      qed
      then have "list_all (\<lambda>x. \<not> isl x) (concat (map undercited_entry (enumerate 1 ?out)))"
        by (rule concat_all)
      with False show ?thesis
        by (simp add: print prints_all_Inr del: One_nat_def)
    qed
    from s print complete show ?thesis
      using sorted_reverse_non_increasing [of deficit_key us]
        sorted_reverse_ties [of deficit_key us] sorted_reverse_mset [of deficit_key us]
      by blast
  qed
  have y20: "py_int ''2020'' = Inr 2020" and y23: "py_int ''2023'' = Inr 2023"
    by (simp_all add: int_eval)
  have d: "isdigit ''2020''" "isdigit ''2023''"
    by (simp_all add: isdigit_def is_unicode_digit_def is_digit_def)
  have found: "find_undercited_publications
        (Data [p1\<lparr>year := ''2020'', citations := 2\<rparr>,
               p2\<lparr>year := ''2023'', citations := 1\<rparr>,
               p3\<lparr>year := ''N/A'', citations := 0\<rparr>]) 2025
      = Inr [p1\<lparr>year := ''2020'', citations := 2, age := Some 5\<rparr>,
             p2\<lparr>year := ''2023'', citations := 1, age := Some 2\<rparr>]"
    by (simp add: find_undercited_publications_def y20 y23 d)
  have sorted: "sorted_undercited
        [p1\<lparr>year := ''2020'', citations := 2, age := Some 5\<rparr>,
         p2\<lparr>year := ''2023'', citations := 1, age := Some 2\<rparr>]
      = Inr [p1\<lparr>year := ''2020'', citations := 2, age := Some 5\<rparr>,
             p2\<lparr>year := ''2023'', citations := 1, age := Some 2\<rparr>]"
    by (simp add: sorted_undercited_def sorted_reverse_def deficit_key_def)
  have k: "deficit_key (p1\<lparr>year := ''2020'', citations := 2, age := Some 5\<rparr>) = 3"
    "deficit_key (p2\<lparr>year := ''2023'', citations := 1, age := Some 2\<rparr>) = 1"
    by (simp_all add: deficit_key_def)
  show ?thesis
    using general found sorted k by blast
qed

theorem undercitation_view_sorted_witness:
  "list_all (\<lambda>x. age x \<noteq> None)
     [\<lparr>title = ''A'', authors = ''X'', venue = ''V'', year = ''2021'', citations = 3, age = Some 4\<rparr>,
      \<lparr>title = ''B'', authors = ''Y'', venue = ''W'', year = ''2015'', citations = 7, age = Some 10\<rparr>,
      \<lparr>title = ''C'', authors = ''Z'', venue = ''U'', year = ''2023'', citations = 1, age = Some 2\<rparr>]
   \<and> sorted_undercited
     [\<lparr>title = ''A'', authors = ''X'', venue = ''V'', year = ''2021'', citations = 3, age = Some 4\<rparr>,
      \<lparr>title = ''B'', authors = ''Y'', venue = ''W'', year = ''2015'', citations = 7, age = Some 10\<rparr>,
      \<lparr>title = ''C'', authors = ''Z'', venue = ''U'', year = ''2023'', citations = 1, age = Some 2\<rparr>]
   = Inr
     [\<lparr>title = ''B'', authors = ''Y'', venue = ''W'', year = ''2015'', citations = 7, age = Some 10\<rparr>,
      \<lparr>title = ''A'', authors = ''X'', venue = ''V'', year = ''2021'', citations = 3, age = Some 4\<rparr>,
      \<lparr>title = ''C'', authors = ''Z'', venue = ''U'', year = ''2023'', citations = 1, age = Some 2\<rparr>]
   \<and> non_increasing deficit_key
     [\<lparr>title = ''B'', authors = ''Y'', venue = ''W'', year = ''2015'', citations = 7, age = Some 10\<rparr>,
      \<lparr>title = ''A'', authors = ''X'', venue = ''V'', year = ''2021'', citations = 3, age = Some 4\<rparr>,
      \<lparr>title = ''C'', authors = ''Z'', venue = ''U'', year = ''2023'', citations = 1, age = Some 2\<rparr>]
   \<and> snd (print_undercited_publications (Data
     [\<lparr>title = ''A'', authors = ''X'', venue = ''V'', year = ''2021'', citations = 3, age = Some 4\<rparr>,
      \<lparr>title = ''B'', authors = ''Y'', venue = ''W'', year = ''2015'', citations = 7, age = Some 10\<rparr>,
      \<lparr>title = ''C'', authors = ''Z'', venue = ''U'', year = ''2023'', citations = 1, age = Some 2\<rparr>]))
     = None"
proof -
  let ?us = "[\<lparr>title = ''A'', authors = ''X'', venue = ''V'', year = ''2021'', citations = 3, age = Some 4\<rparr>,
      \<lparr>title = ''B'', authors = ''Y'', venue = ''W'', year = ''2015'', citations = 7, age = Some 10\<rparr>,
      \<lparr>title = ''C'', authors = ''Z'', venue = ''U'', year = ''2023'', citations = 1, age = Some (2::int)\<rparr>]"
  let ?out = "[\<lparr>title = ''B'', authors = ''Y'', venue = ''W'', year = ''2015'', citations = 7, age = Some 10\<rparr>,
      \<lparr>title = ''A'', authors = ''X'', venue = ''V'', year = ''2021'', citations = 3, age = Some 4\<rparr>,
      \<lparr>title = ''C'', authors = ''Z'', venue = ''U'', year = ''2023'', citations = 1, age = Some (2::int)\<rparr>]"
  have ages: "list_all (\<lambda>x. age x \<noteq> None) ?us"
    by simp
  have s: "sorted_undercited ?us = Inr ?out"
    by (simp add: sorted_undercited_def sorted_reverse_def deficit_key_def)
  have ok: "list_all (\<lambda>x. printable (the (age x)) \<and> printable (citations x)
                            \<and> printable (deficit_key x)) ?us"
    by (simp add: printable_small deficit_key_def)
  from undercitation_view_sorted [of ?us] ages ok
  obtain out where o: "sorted_undercited ?us = Inr out" and n: "non_increasing deficit_key out"
    and p: "snd (print_undercited_publications (Data ?us)) = None"
    by blast
  from o s have "out = ?out" by simp
  with n have n': "non_increasing deficit_key ?out" by simp
  show ?thesis
    by (rule conjI [OF ages conjI [OF s conjI [OF n' p]]])
qed

section \<open>Error results in the views\<close>

text \<open>
  C10. Given an error result, \<^verbatim>\<open>find_undercited_publications\<close> returns the empty list,
  and \<^verbatim>\<open>print_undercited_publications\<close> then prints the banner that ends with
  \<^verbatim>\<open>No undercited publications found.\<close>, whatever the error message was, and raises
  nothing.
\<close>

theorem error_result_reported_as_none_found:
  "\<exists>u. find_undercited_publications (ErrorResult msg) current_year = Inr u
     \<and> u = []
     \<and> print_undercited_publications (Data u)
         = ([newline # rule_line,
             ''UNDERCITED PUBLICATIONS (Citations < Age in Years)'',
             rule_line,
             newline # ''No undercited publications found.''], None)"
  by (simp add: find_undercited_publications_def print_undercited_publications_def
      none_found_banner_def)

text \<open>
  C9, as stated, fails for the renderer of the undercitation view: given an error result
  it prints no diagnostic; it passes the dictionary to \<^verbatim>\<open>sorted\<close> and raises, with
  nothing printed.
\<close>

theorem undercited_renderer_error_counterexample:
  "print_undercited_publications (ErrorResult ''Request failed: timeout'')
     = ([], Some TypeError)"
  by (simp add: print_undercited_publications_def)

text \<open>
  C9, amended. Given an error result, \<^verbatim>\<open>print_publications_sorted\<close> prints the single
  line \<^verbatim>\<open>Error: \<close> followed by the message and nothing else. In the undercitation view
  the error result is caught by \<^verbatim>\<open>find_undercited_publications\<close>, which returns the
  empty list, so that the renderer is given a list and prints the banner of an empty
  selection. Neither raises.
\<close>

theorem renderers_on_error_result:
  "print_publications_sorted (ErrorResult msg) = ([''Error: '' @ msg], None)
   \<and> (\<exists>u. find_undercited_publications (ErrorResult msg) current_year = Inr u
          \<and> print_undercited_publications (Data u) = (none_found_banner, None))"
  by (simp add: print_publications_sorted_def find_undercited_publications_def
      print_undercited_publications_def prints_map_Inr)

section \<open>Division of integers in floating point\<close>




subsection \<open>Rounding to an integer\<close>


lemma round_half_even_of_int [simp]: "round_half_even (of_int n) = n"
  by (simp add: round_half_even_def)






subsection \<open>The nearest double\<close>







subsection \<open>The division and the average\<close>




section \<open>Summary view: the figures\<close>

text \<open>
  C7. The figure in the line of the most cited publication is the citation count of the
  first publication of the list, for every list that is not empty; it need not be the
  largest count of the list. Building the line raises \<^verbatim>\<open>ValueError\<close> when that count has
  more than 4300 digits. The summary block holds this line whenever it runs to its end:
  when the division of the average does not raise and the total, too, has at most 4300
  digits.
\<close>

theorem most_cited_is_first:
  "most_cited_line (p # ps)
     = (if printable (citations p)
        then Inr (''Most Cited Publication: '' @ decimal (citations p) @ '' citations'')
        else Inl ValueError)
   \<and> summary_statistics (Data (p # ps)) undercited
       = (case avg_citations (p # ps) of
            Inl e \<Rightarrow> Inl e
          | Inr avg \<Rightarrow>
              if printable (total_citations (p # ps)) \<and> printable (citations p) then
                Inr (Some \<lparr>total_publications = length (p # ps),
                           total = total_citations (p # ps),
                           average = avg,
                           most_cited = ''Most Cited Publication: '' @ decimal (citations p)
                                          @ '' citations'',
                           undercited_count = length undercited\<rparr>)
              else Inl ValueError)
   \<and> most_cited_line
        [\<lparr>title = ''A'', authors = ''X'', venue = ''V'', year = ''2021'', citations = 1, age = None\<rparr>,
         \<lparr>title = ''B'', authors = ''Y'', venue = ''W'', year = ''2015'', citations = 5, age = None\<rparr>]
      = Inr ''Most Cited Publication: 1 citations''
   \<and> Max (set (map citations
        [\<lparr>title = ''A'', authors = ''X'', venue = ''V'', year = ''2021'', citations = 1, age = None\<rparr>,
         \<lparr>title = ''B'', authors = ''Y'', venue = ''W'', year = ''2015'', citations = 5, age = None\<rparr>]))
      = 5"
proof -
  have line: "most_cited_line (q # qs)
     = (if printable (citations q)
        then Inr (''Most Cited Publication: '' @ decimal (citations q) @ '' citations'')
        else Inl ValueError)" for q qs
    by (simp add: most_cited_line_def str_int_eq)
  have block: "summary_statistics (Data (p # ps)) undercited
       = (case avg_citations (p # ps) of
            Inl e \<Rightarrow> Inl e
          | Inr avg \<Rightarrow>
              if printable (total_citations (p # ps)) \<and> printable (citations p) then
                Inr (Some \<lparr>total_publications = length (p # ps),
                           total = total_citations (p # ps),
                           average = avg,
                           most_cited = ''Most Cited Publication: '' @ decimal (citations p)
                                          @ '' citations'',
                           undercited_count = length undercited\<rparr>)
              else Inl ValueError)"
    by (simp add: summary_statistics_def line str_int_eq split: sum.splits)
  have example: "most_cited_line
        [\<lparr>title = ''A'', authors = ''X'', venue = ''V'', year = ''2021'', citations = 1, age = None\<rparr>,
         \<lparr>title = ''B'', authors = ''Y'', venue = ''W'', year = ''2015'', citations = 5, age = None\<rparr>]
      = Inr ''Most Cited Publication: 1 citations''"
    by (simp add: line printable_small decimal_def str_nat.simps digit_char_def)
  have largest: "Max (set (map citations
        [\<lparr>title = ''A'', authors = ''X'', venue = ''V'', year = ''2021'', citations = 1, age = None\<rparr>,
         \<lparr>title = ''B'', authors = ''Y'', venue = ''W'', year = ''2015'', citations = 5, age = None\<rparr>]))
      = 5"
    by simp
  show ?thesis
    by (rule conjI [OF line conjI [OF block conjI [OF example largest]]])
qed




section \<open>Pagination driver\<close>

lemma upt_shift: "[0..<Suc (Suc k)] = 0 # map Suc [0..<Suc k]"
  by (simp add: upt_conv_Cons map_Suc_upt del: upt_Suc)

lemma map_upt_shift: "map f [0..<Suc (Suc k)] = f 0 # map (\<lambda>i. f (Suc i)) [0..<Suc k]"
  by (simp only: upt_shift list.map map_map o_def)

lemma concat_upt_shift:
  "concat (map f [0..<Suc (Suc k)]) = f 0 @ concat (map (\<lambda>i. f (Suc i)) [0..<Suc k])"
  by (simp only: map_upt_shift concat.simps)

lemma loop_short:
  assumes "short_page fetch start"
  shows "pagination_loop fetch start acc req
     = Some (Inr (acc @ map extract_publication (page_rows fetch start 0)), req @ [start])"
proof -
  from assms obtain rows where r: "fetch start = Inr rows" and l: "int (length rows) < page_size"
    by (auto simp: short_page_def split: sum.splits)
  show ?thesis
    by (subst pagination_loop.simps) (simp add: r l page_rows_def)
qed

lemma loop_full:
  assumes "full_page fetch start"
  shows "pagination_loop fetch start acc req
     = pagination_loop fetch (start + page_size)
         (acc @ map extract_publication (page_rows fetch start 0)) (req @ [start])"
proof -
  from assms obtain rows where r: "fetch start = Inr rows" and l: "page_size \<le> int (length rows)"
    by (auto simp: full_page_def split: sum.splits)
  from l have ne: "rows \<noteq> []"
    by (auto simp: page_size_def)
  show ?thesis
    by (subst pagination_loop.simps) (use l ne in \<open>simp add: r page_rows_def Let_def\<close>)
qed

lemma loop_pages:
  assumes "\<forall>i<k. full_page fetch (start + page_size * int i)"
    and "short_page fetch (start + page_size * int k)"
  shows "pagination_loop fetch start acc req
     = Some (Inr (acc @ concat (map (\<lambda>i. map extract_publication (page_rows fetch start i))
                                 [0..<Suc k])),
             req @ map (\<lambda>i. start + page_size * int i) [0..<Suc k])"
  using assms
proof (induction k arbitrary: start acc req)
  case 0
  then show ?case
    by (simp add: loop_short)
next
  case (Suc k)
  from Suc.prems(1) have first: "full_page fetch start"
    by (metis mult_zero_right of_nat_0 add.right_neutral zero_less_Suc)
  have shift: "start + page_size + page_size * int i = start + page_size * int (Suc i)" for i
    by (simp add: algebra_simps)
  have full: "\<forall>i<k. full_page fetch (start + page_size + page_size * int i)"
    using Suc.prems(1) by (simp only: shift) auto
  have short: "short_page fetch (start + page_size + page_size * int k)"
    using Suc.prems(2) by (simp only: shift)
  have rows: "page_rows fetch (start + page_size) i = page_rows fetch start (Suc i)" for i
    by (simp only: page_rows_def shift)
  have "pagination_loop fetch start acc req
      = Some (Inr ((acc @ map extract_publication (page_rows fetch start 0))
                     @ concat (map (\<lambda>i. map extract_publication (page_rows fetch start (Suc i)))
                                [0..<Suc k])),
              (req @ [start]) @ map (\<lambda>i. start + page_size * int (Suc i)) [0..<Suc k])"
    by (simp only: loop_full [OF first] Suc.IH [OF full short] rows shift)
  also have "\<dots> = Some (Inr (acc @ concat (map (\<lambda>i. map extract_publication (page_rows fetch start i))
                                 [0..<Suc (Suc k)])),
             req @ map (\<lambda>i. start + page_size * int i) [0..<Suc (Suc k)])"
    by (simp only: concat_upt_shift [where f = "\<lambda>i. map extract_publication (page_rows fetch start i)"]
        map_upt_shift [where f = "\<lambda>i. start + page_size * int i"]) simp
  finally show ?case .
qed

text \<open>
  What holds for the publications already accumulated and for the rows of every page
  holds for the publications the loop returns.
\<close>

lemma loop_output_rows:
  assumes "pagination_loop fetch start acc req = Some y"
  shows "list_all P acc \<and> (\<forall>s rows. fetch s = Inr rows \<longrightarrow> list_all P (map extract_publication rows))
     \<longrightarrow> (case fst y of Inl e \<Rightarrow> True | Inr pubs \<Rightarrow> list_all P pubs)"
  using assms
proof (induct rule: pagination_loop.raw_induct)
  case (1 loop fetch start publications requested y)
  note IH = 1(1) and body = 1(2) and major = 1(3)
  show ?case
  proof
    assume a: "list_all P publications
      \<and> (\<forall>s rows. fetch s = Inr rows \<longrightarrow> list_all P (map extract_publication rows))"
    show "case fst y of Inl e \<Rightarrow> True | Inr pubs \<Rightarrow> list_all P pubs"
    proof (cases "fetch start")
      case (Inl e)
      with body show ?thesis by auto
    next
      case (Inr rows)
      with a have page: "list_all P (map extract_publication rows)" by blast
      show ?thesis
      proof (cases "rows = [] \<or> int (length rows) < page_size")
        case True
        with body Inr a page show ?thesis
          by (auto simp: Let_def split: if_splits)
      next
        case False
        with body Inr have "loop fetch (start + page_size)
            (publications @ map extract_publication rows) (requested @ [start]) = Some y"
          by (simp add: Let_def)
        moreover have "list_all P (publications @ map extract_publication rows)"
          using a page by simp
        moreover from major Inr False have "pagination_loop fetch (start + page_size)
            (publications @ map extract_publication rows) (requested @ [start]) = Some y"
          by (subst (asm) pagination_loop.simps) (simp add: Let_def)
        ultimately show ?thesis
          using IH a by blast
      qed
    qed
  qed
qed (rule assms)

lemma first_short_page:
  assumes ok: "\<forall>s. \<exists>rows. fetch s = Inr rows"
    and ex: "\<exists>n. short_page fetch (page_size * int n)"
  shows "\<exists>k. (\<forall>i<k. full_page fetch (page_size * int i)) \<and> short_page fetch (page_size * int k)"
proof -
  define k where "k = (LEAST n. short_page fetch (page_size * int n))"
  from ex have short: "short_page fetch (page_size * int k)"
    unfolding k_def by (auto intro: LeastI)
  have "full_page fetch (page_size * int i)" if "i < k" for i
  proof -
    from that have "\<not> short_page fetch (page_size * int i)"
      unfolding k_def by (rule not_less_Least)
    moreover from ok obtain rows where "fetch (page_size * int i) = Inr rows"
      by blast
    ultimately show ?thesis
      by (simp add: full_page_def short_page_def)
  qed
  with short show ?thesis by blast
qed

text \<open>
  C4. If the pages at offsets 0, 100, ... up to but not including \<open>100 * k\<close> each give at
  least 100 rows and the page at offset \<open>100 * k\<close> gives fewer than 100 rows, possibly
  none, then the loop of \<^verbatim>\<open>get_publications\<close> ends; it has requested exactly the offsets
  0, 100, ..., \<open>100 * k\<close> in this order, and it returns the publications of the rows of
  these pages, page after page and row after row. \<^verbatim>\<open>get_publications\<close> itself then
  returns that list for a URL that holds a user id. For pages of 100, 100 and 37 rows
  the result has 237 entries after the three requests at 0, 100 and 200; for an empty
  first page it is empty after the single request at 0. In particular the loop ends
  for every fetcher that always gives rows and gives fewer than 100 of them at some
  offset \<open>100 * n\<close>.
\<close>

theorem pagination_driver:
  "((\<forall>i<k. full_page fetch (page_size * int i)) \<and> short_page fetch (page_size * int k) \<longrightarrow>
      pagination_loop fetch 0 [] []
        = Some (Inr (concat (map (\<lambda>i. map extract_publication (page_rows fetch 0 i)) [0..<Suc k])),
                map (\<lambda>i. page_size * int i) [0..<Suc k]))
   \<and> (re_search_param ''user='' url = Some user_id
        \<and> lang = (case re_search_param ''hl='' url of Some l \<Rightarrow> l | None \<Rightarrow> ''en'')
        \<and> (\<forall>i<k. full_page (fetch_url user_id lang) (page_size * int i))
        \<and> short_page (fetch_url user_id lang) (page_size * int k) \<longrightarrow>
      get_publications fetch_url url
        = Some (Data (concat (map (\<lambda>i. map extract_publication
                                          (page_rows (fetch_url user_id lang) 0 i)) [0..<Suc k]))))
   \<and> (fetch 0 = Inr r0 \<and> fetch 100 = Inr r1 \<and> fetch 200 = Inr r2
        \<and> length r0 = 100 \<and> length r1 = 100 \<and> length r2 = 37 \<longrightarrow>
      pagination_loop fetch 0 [] []
        = Some (Inr (map extract_publication (r0 @ r1 @ r2)), [0, 100, 200])
      \<and> length (map extract_publication (r0 @ r1 @ r2)) = 237)
   \<and> (fetch 0 = Inr [] \<longrightarrow> pagination_loop fetch 0 [] [] = Some (Inr [], [0]))
   \<and> ((\<forall>s. \<exists>rows. fetch s = Inr rows) \<and> (\<exists>n. short_page fetch (page_size * int n)) \<longrightarrow>
        (\<exists>j. (\<forall>i<j. full_page fetch (page_size * int i))
           \<and> short_page fetch (page_size * int j)
           \<and> pagination_loop fetch 0 [] []
               = Some (Inr (concat (map (\<lambda>i. map extract_publication (page_rows fetch 0 i))
                                     [0..<Suc j])),
                       map (\<lambda>i. page_size * int i) [0..<Suc j])))"
proof -
  have general: "pagination_loop f 0 [] []
        = Some (Inr (concat (map (\<lambda>i. map extract_publication (page_rows f 0 i)) [0..<Suc k])),
                map (\<lambda>i. page_size * int i) [0..<Suc k])"
    if "\<forall>i<k. full_page f (page_size * int i)" and "short_page f (page_size * int k)" for f k
    using loop_pages [of k f 0 "[]" "[]"] that by simp
  have driver: "get_publications fetch_url url
        = Some (Data (concat (map (\<lambda>i. map extract_publication
                                          (page_rows (fetch_url user_id lang) 0 i)) [0..<Suc k])))"
    if "re_search_param ''user='' url = Some user_id"
      and "lang = (case re_search_param ''hl='' url of Some l \<Rightarrow> l | None \<Rightarrow> ''en'')"
      and "\<forall>i<k. full_page (fetch_url user_id lang) (page_size * int i)"
      and "short_page (fetch_url user_id lang) (page_size * int k)"
    using general [OF that(3) that(4)] that(1) that(2)
    by (simp add: get_publications_def Let_def)
  have three: "pagination_loop fetch 0 [] []
        = Some (Inr (map extract_publication (r0 @ r1 @ r2)), [0, 100, 200])
      \<and> length (map extract_publication (r0 @ r1 @ r2)) = 237"
    if "fetch 0 = Inr r0" "fetch 100 = Inr r1" "fetch 200 = Inr r2"
      "length r0 = 100" "length r1 = 100" "length r2 = 37"
  proof -
    have "\<forall>i<2. full_page fetch (page_size * int i)"
      using that by (auto simp: full_page_def page_size_def less_Suc_eq numeral_2_eq_2)
    moreover have "short_page fetch (page_size * int 2)"
      using that by (simp add: short_page_def page_size_def)
    ultimately have "pagination_loop fetch 0 [] []
        = Some (Inr (concat (map (\<lambda>i. map extract_publication (page_rows fetch 0 i)) [0..<Suc 2])),
                map (\<lambda>i. page_size * int i) [0..<Suc 2])"
      by (rule general)
    moreover have "[0..<Suc 2] = [0, 1, 2]"
      by (simp add: upt_conv_Cons)
    ultimately show ?thesis
      using that by (simp add: page_rows_def page_size_def)
  qed
  have empty: "pagination_loop fetch 0 [] [] = Some (Inr [], [0])" if "fetch 0 = Inr []"
    by (subst pagination_loop.simps) (simp add: that)
  have ends: "\<exists>j. (\<forall>i<j. full_page fetch (page_size * int i))
           \<and> short_page fetch (page_size * int j)
           \<and> pagination_loop fetch 0 [] []
               = Some (Inr (concat (map (\<lambda>i. map extract_publication (page_rows fetch 0 i))
                                     [0..<Suc j])),
                       map (\<lambda>i. page_size * int i) [0..<Suc j])"
    if "\<forall>s. \<exists>rows. fetch s = Inr rows" and "\<exists>n. short_page fetch (page_size * int n)"
  proof -
    from first_short_page [OF that] obtain j
      where "\<forall>i<j. full_page fetch (page_size * int i)"
        and "short_page fetch (page_size * int j)"
      by blast
    with general [of j fetch] show ?thesis by blast
  qed
  show ?thesis
    using general [of k fetch] driver three empty ends by blast
qed

theorem pagination_driver_witness:
  "get_publications
     (\<lambda>user_id lang start.
        if user_id = ''ab'' \<and> lang = ''de'' \<and> (start = 0 \<or> start = 100) then
          Inr (replicate 100 \<lparr>title_elem = Some ''T'', gray_elems = [''A'', ''V''],
                               year_elem = Some ''2020'', citations_elem = Some ''7''\<rparr>)
        else if start = 200 then
          Inr (replicate 37 \<lparr>title_elem = None, gray_elems = [], year_elem = Some [],
                              citations_elem = Some ''x''\<rparr>)
        else Inl (RequestException ''no such page''))
     ''q?user=ab&hl=de''
   = Some (Data (replicate 100 \<lparr>title = ''T'', authors = ''A'', venue = ''V'', year = ''2020'',
                                 citations = 7, age = None\<rparr>
                 @ replicate 100 \<lparr>title = ''T'', authors = ''A'', venue = ''V'', year = ''2020'',
                                   citations = 7, age = None\<rparr>
                 @ replicate 37 \<lparr>title = ''N/A'', authors = ''N/A'', venue = ''N/A'',
                                  year = ''N/A'', citations = 0, age = None\<rparr>))"
proof -
  let ?f = "\<lambda>user_id lang start.
        if user_id = ''ab'' \<and> lang = ''de'' \<and> (start = (0::int) \<or> start = 100) then
          Inr (replicate 100 \<lparr>title_elem = Some ''T'', gray_elems = [''A'', ''V''],
                               year_elem = Some ''2020'', citations_elem = Some ''7''\<rparr>)
        else if start = 200 then
          Inr (replicate 37 \<lparr>title_elem = None, gray_elems = [], year_elem = Some [],
                              citations_elem = Some ''x''\<rparr>)
        else Inl (RequestException ''no such page'')"
  have u: "re_search_param ''user='' ''q?user=ab&hl=de'' = Some ''ab''"
    by simp
  have l: "''de'' = (case re_search_param ''hl='' ''q?user=ab&hl=de'' of Some l \<Rightarrow> l | None \<Rightarrow> ''en'')"
    by simp
  have full: "\<forall>i<2. full_page (?f ''ab'' ''de'') (page_size * int i)"
    by (auto simp: full_page_def page_size_def less_Suc_eq numeral_2_eq_2)
  have short: "short_page (?f ''ab'' ''de'') (page_size * int 2)"
    by (simp add: short_page_def page_size_def)
  have c7: "py_int ''7'' = Inr 7" and cx: "py_int ''x'' = Inl ValueError"
    by (simp_all add: int_eval)
  have upt: "[0..<Suc 2] = [0, 1, 2]"
    by (simp add: upt_conv_Cons)
  from pagination_driver [of 2 "?f ''ab'' ''de''" "''q?user=ab&hl=de''" "''ab''" "''de''" ?f]
    u l full short
  have "get_publications ?f ''q?user=ab&hl=de''
    = Some (Data (concat (map (\<lambda>i. map extract_publication (page_rows (?f ''ab'' ''de'') 0 i))
                            [0..<Suc 2])))"
    by blast
  then show ?thesis
    unfolding upt
    by (simp add: page_rows_def page_size_def extract_publication_def extract_citations_def
        c7 cx)
qed

section \<open>Metrics extractor: cells by position\<close>

lemma six_cells:
  "6 \<le> length xs \<Longrightarrow> take 6 xs = [xs ! 0, xs ! 1, xs ! 2, xs ! 3, xs ! 4, xs ! 5]"
proof -
  assume "6 \<le> length xs"
  then obtain a b c d e f r where "xs = a # b # c # d # e # f # r"
    by (auto simp: numeral_eq_Suc Suc_le_length_iff)
  then show ?thesis by simp
qed

text \<open>
  C5, as stated, fails: the cells are collected from the whole page, not only from inside
  the statistics table. With four cells inside the table and two outside, no error is
  returned and the two outer cells are taken as the i10 values.
\<close>

theorem metrics_outside_table_counterexample:
  "metrics_table
     \<lparr>metrics_table = True,
      std_cells = [(True, ''120''), (True, ''80''), (True, ''6''), (True, ''5''),
                   (False, ''3''), (False, ''2'')],
      name_elem = None\<rparr>
   \<and> length (filter fst (std_cells
     \<lparr>metrics_table = True,
      std_cells = [(True, ''120''), (True, ''80''), (True, ''6''), (True, ''5''),
                   (False, ''3''), (False, ''2'')],
      name_elem = None\<rparr>)) = 4
   \<and> get_h_index
     (Inr \<lparr>metrics_table = True,
           std_cells = [(True, ''120''), (True, ''80''), (True, ''6''), (True, ''5''),
                        (False, ''3''), (False, ''2'')],
           name_elem = None\<rparr>)
     = Data \<lparr>citations_all = ''120'', citations_recent = ''80'', h_index_all = ''6'',
             h_index_recent = ''5'', i10_index_all = ''3'', i10_index_recent = ''2'',
             name = None\<rparr>"
  by (simp add: get_h_index_def)

text \<open>
  C5, amended. When the statistics table is present, \<^verbatim>\<open>get_h_index\<close> collects the
  numeric-value cells of the whole page. With fewer than 6 of them it returns the error
  whose message reports the number found; otherwise the first six cells, in document
  order, become citations-all, citations-recent, h-index-all, h-index-recent, i10-all
  and i10-recent. A page with only 4 such cells gives the error with the count 4.
\<close>

theorem metrics_by_position:
  "(metrics_table soup \<and> length (std_cells soup) < 6 \<longrightarrow>
      get_h_index (Inr soup)
        = ErrorResult (''Expected 6 metric values, found '' @ str_nat (length (std_cells soup))))
   \<and> (metrics_table soup \<and> 6 \<le> length (std_cells soup) \<longrightarrow>
        (\<exists>m. get_h_index (Inr soup) = Data m
           \<and> [citations_all m, citations_recent m, h_index_all m, h_index_recent m,
               i10_index_all m, i10_index_recent m]
             = take 6 (map snd (std_cells soup))))
   \<and> (metrics_table soup \<and> length (std_cells soup) = 4 \<longrightarrow>
        get_h_index (Inr soup) = ErrorResult ''Expected 6 metric values, found 4'')"
proof -
  have "str_nat 4 = ''4''"
    by (simp add: str_nat.simps digit_char_def)
  then show ?thesis
    by (auto simp: get_h_index_def Let_def six_cells)
qed

theorem metrics_by_position_witness:
  "get_h_index
     (Inr \<lparr>metrics_table = True,
           std_cells = [(True, ''120''), (True, ''80''), (True, ''6''), (True, ''5'')],
           name_elem = Some ''A. Author''\<rparr>)
     = ErrorResult ''Expected 6 metric values, found 4''
   \<and> get_h_index
     (Inr \<lparr>metrics_table = True,
           std_cells = [(True, ''120''), (True, ''80''), (True, ''6''), (True, ''5''),
                        (True, ''3''), (True, ''2''), (True, ''9'')],
           name_elem = Some ''A. Author''\<rparr>)
     = Data \<lparr>citations_all = ''120'', citations_recent = ''80'', h_index_all = ''6'',
             h_index_recent = ''5'', i10_index_all = ''3'', i10_index_recent = ''2'',
             name = Some ''A. Author''\<rparr>"
  using metrics_by_position
    [of "\<lparr>metrics_table = True,
           std_cells = [(True, ''120''), (True, ''80''), (True, ''6''), (True, ''5'')],
           name_elem = Some ''A. Author''\<rparr>"]
  by (simp add: get_h_index_def)

section \<open>Citation counts of extracted rows\<close>

lemma digit_value_nonneg: "is_digit c \<Longrightarrow> 0 \<le> digit_value c"
  unfolding is_digit_def digit_value_def by auto

lemma int_digits_nonneg: "int_digits acc s = Some n \<Longrightarrow> 0 \<le> acc \<Longrightarrow> 0 \<le> n"
proof (induction acc s rule: int_digits.induct)
  case (1 acc)
  then show ?case by simp
next
  case (2 acc c cs)
  show ?case
  proof (cases "is_digit c")
    case True
    with "2.prems" "2.IH"(1) show ?thesis
      by (simp add: digit_value_nonneg)
  next
    case False
    with "2.prems" obtain d ds where cs: "cs = d # ds" and d: "is_digit d" and u: "c = CHR ''_''"
      and r: "int_digits (10 * acc + digit_value d) ds = Some n"
      by (auto split: if_splits list.splits)
    from "2.IH"(2) [OF False u cs d r] "2.prems"(2) d show ?thesis
      by (simp add: digit_value_nonneg)
  qed
qed

lemma int_unsigned_nonneg: "int_unsigned s = Some n \<Longrightarrow> 0 \<le> n"
  by (auto simp: int_unsigned_def digit_value_nonneg split: list.splits if_splits option.splits
      dest: int_digits_nonneg)

lemma set_strip: "set (strip s) \<subseteq> set s"
proof -
  have "set (strip s) \<subseteq> set (dropWhile is_space s)"
    by (auto simp: strip_def dest: set_dropWhileD)
  then show ?thesis
    by (auto dest: set_dropWhileD)
qed

lemma set_transform_space_to_ascii:
  "set (transform_space_to_ascii s) \<subseteq> set s \<union> {CHR '' '', CHR ''?''}"
  by (induction s) auto

lemma set_int_text: "set (int_text s) \<subseteq> set s \<union> {CHR '' '', CHR ''?''}"
  using set_transform_space_to_ascii [of s] by (auto simp: int_text_def)

lemma py_int_nonneg:
  assumes "py_int s = Inr n" and "CHR ''-'' \<notin> set s"
  shows "0 \<le> n"
proof -
  from assms(2) have "CHR ''-'' \<notin> set (int_text s)"
    using set_int_text [of s] by auto
  then have m: "CHR ''-'' \<notin> set (strip (int_text s))"
    using set_strip by blast
  show ?thesis
  proof (cases "strip (int_text s)")
    case Nil
    with assms(1) show ?thesis by (simp add: py_int_def)
  next
    case (Cons c cs)
    with m have "c \<noteq> CHR ''-''" by auto
    with assms(1) Cons show ?thesis
      by (auto simp: py_int_def split: if_splits option.splits dest: int_unsigned_nonneg)
  qed
qed

lemma py_int_empty: "py_int [] = Inl ValueError"
  by (simp add: py_int_def int_text_def strip_def)

text \<open>
  C6, as stated, fails: the text of the citation indicator is given to \<^verbatim>\<open>int\<close>, which
  accepts a sign, and the result is stored as it is.
\<close>

theorem negative_citations_counterexample:
  "citations (extract_publication
     \<lparr>title_elem = Some ''T'', gray_elems = [''A'', ''V''], year_elem = Some ''2020'',
      citations_elem = Some ''-5''\<rparr>) = - 5"
  by (simp add: extract_publication_def extract_citations_def int_eval)

text \<open>
  C6, amended. The citation count of an extracted publication is the integer that the
  text of the citation indicator denotes, and 0 when the indicator is absent or its text
  is empty or not an integer literal. It is at least 0 whenever that text has no minus
  sign, and then so is the count of every publication that the pagination driver
  returns.
\<close>

theorem citations_of_extracted_rows:
  "citations (extract_publication row)
     = (case citations_elem row of
          None \<Rightarrow> 0
        | Some t \<Rightarrow> (case py_int t of Inl e \<Rightarrow> 0 | Inr n \<Rightarrow> n))
   \<and> (no_minus_sign row \<longrightarrow> 0 \<le> citations (extract_publication row))
   \<and> (pagination_loop fetch 0 [] [] = Some (Inr pubs, requested)
        \<and> (\<forall>start rows. fetch start = Inr rows \<longrightarrow> list_all no_minus_sign rows)
        \<longrightarrow> list_all (\<lambda>p. 0 \<le> citations p) pubs)"
proof -
  have eq: "citations (extract_publication r)
     = (case citations_elem r of
          None \<Rightarrow> 0
        | Some t \<Rightarrow> (case py_int t of Inl e \<Rightarrow> 0 | Inr n \<Rightarrow> n))" for r
    by (simp add: extract_publication_def extract_citations_def py_int_empty
        split: option.splits)
  have nonneg: "0 \<le> citations (extract_publication r)" if "no_minus_sign r" for r
    using that
    by (auto simp: eq no_minus_sign_def split: option.splits sum.splits dest: py_int_nonneg)
  have driver: "list_all (\<lambda>p. 0 \<le> citations p) pubs"
    if run: "pagination_loop fetch 0 [] [] = Some (Inr pubs, requested)"
      and rows: "\<forall>start rows. fetch start = Inr rows \<longrightarrow> list_all no_minus_sign rows"
  proof -
    have "\<forall>s rows. fetch s = Inr rows
        \<longrightarrow> list_all (\<lambda>p. 0 \<le> citations p) (map extract_publication rows)"
      using rows nonneg by (auto simp: list_all_iff)
    with loop_output_rows [OF run, of "\<lambda>p. 0 \<le> citations p"] show ?thesis
      by simp
  qed
  show ?thesis
    using eq nonneg driver by blast
qed

theorem citations_of_extracted_rows_witness:
  "no_minus_sign \<lparr>title_elem = Some ''T'', gray_elems = [''A''], year_elem = None,
                   citations_elem = Some ''12''\<rparr>
   \<and> citations (extract_publication
        \<lparr>title_elem = Some ''T'', gray_elems = [''A''], year_elem = None,
         citations_elem = Some ''12''\<rparr>) = 12
   \<and> pagination_loop
        (\<lambda>start. Inr (if start = 0
                        then [\<lparr>title_elem = Some ''T'', gray_elems = [''A''], year_elem = None,
                                citations_elem = Some ''12''\<rparr>]
                        else []))
        0 [] []
      = Some (Inr [\<lparr>title = ''T'', authors = ''A'', venue = ''N/A'', year = ''N/A'',
                    citations = 12, age = None\<rparr>], [0])
   \<and> list_all (\<lambda>p. 0 \<le> citations p)
        [\<lparr>title = ''T'', authors = ''A'', venue = ''N/A'', year = ''N/A'',
          citations = 12, age = None\<rparr>]"
proof -
  let ?row = "\<lparr>title_elem = Some ''T'', gray_elems = [''A''], year_elem = None,
               citations_elem = Some ''12''\<rparr>"
  let ?f = "\<lambda>start::int. (Inr (if start = 0 then [?row] else [])
               :: fetch_failure + pub_row list)"
  let ?p = "\<lparr>title = ''T'', authors = ''A'', venue = ''N/A'', year = ''N/A'',
             citations = 12, age = None\<rparr>"
  have c: "py_int ''12'' = Inr 12"
    by (simp add: int_eval)
  have nm: "no_minus_sign ?row"
    by (simp add: no_minus_sign_def)
  have run: "pagination_loop ?f 0 [] [] = Some (Inr [?p], [0])"
    by (subst pagination_loop.simps)
      (simp add: page_size_def extract_publication_def extract_citations_def c)
  have rows: "\<forall>start rows. ?f start = Inr rows \<longrightarrow> list_all no_minus_sign rows"
    using nm by auto
  from citations_of_extracted_rows [of ?row ?f "[?p]" "[0]"] nm run rows
  have "citations (extract_publication ?row)
          = (case citations_elem ?row of None \<Rightarrow> 0
             | Some t \<Rightarrow> (case py_int t of Inl e \<Rightarrow> 0 | Inr n \<Rightarrow> n))"
    and "list_all (\<lambda>p. 0 \<le> citations p) [?p]"
    by blast+
  with nm run show ?thesis
    by (simp add: c)
qed

end
